theory Spec2Isabelle
  imports Complex_Main "HOL-Library.AList" "HOL-Library.Product_Lexorder" "HOL-Library.Option_ord"
    "HOL-Library.Multiset"
begin

section \<open>Budget app: the helpers of \<^verbatim>\<open>src/utils/helpers.ts\<close> and the budget context\<close>

text \<open>
  The development embeds the pure helpers of the budget tracker (date and month-key
  utilities, aggregation, rollover, recurring-expense generation, CSV export) and the
  \<^verbatim>\<open>effectiveBudget\<close> callback of the budget context.

  Conventions of the embedding:
  \<^item> a JavaScript \<^verbatim>\<open>number\<close> that holds money is an exact rational (\<^typ>\<open>rat\<close>): every finite
    double is one; the rounding of IEEE addition, NaN and the infinities are not modelled;
  \<^item> a \<^verbatim>\<open>number\<close> that holds a year, a month or a day is an \<^typ>\<open>int\<close>, and
    \<^typ>\<open>int option\<close> where the source can see NaN (\<open>None\<close>);
  \<^item> a \<^verbatim>\<open>Date\<close> built from local fields is the civil date \<open>(year, month, day)\<close> of its
    local midnight, \<open>None\<close> being the Invalid Date;
  \<^item> the local time zone is a parameter \<open>tz\<close>: the minutes local time is ahead of UTC
    (60 for UTC+1); it is constant, daylight-saving changes are not modelled;
  \<^item> an exception of the source is the left summand of a result \<open>error + 'a\<close>.
\<close>

subsection \<open>Strings\<close>

definition startsWith :: "string \<Rightarrow> string \<Rightarrow> bool" where
  "startsWith s p = (take (length p) s = p)"

text \<open>\<^verbatim>\<open>s.split('-')\<close>: never empty, the empty string splits into one empty part.\<close>

fun split_dash :: "string \<Rightarrow> string list" where
  "split_dash [] = [[]]"
| "split_dash (c # cs) =
     (if c = CHR ''-'' then [] # split_dash cs
      else (case split_dash cs of [] \<Rightarrow> [[c]] | p # ps \<Rightarrow> (c # p) # ps))"


definition is_digit :: "char \<Rightarrow> bool" where
  "is_digit c = (48 \<le> (of_char c :: nat) \<and> (of_char c :: nat) \<le> 57)"

definition digit_char :: "nat \<Rightarrow> char" where
  "digit_char d = char_of (48 + d)"

definition digit_val :: "char \<Rightarrow> nat" where
  "digit_val c = of_char c - 48"

text \<open>The decimal digits of a natural number, as \<^verbatim>\<open>String(n)\<close> prints them.\<close>

fun digits_of :: "nat \<Rightarrow> string" where
  "digits_of n = (if n < 10 then [digit_char n] else digits_of (n div 10) @ [digit_char (n mod 10)])"

declare digits_of.simps [simp del]

definition dec_val :: "string \<Rightarrow> nat" where
  "dec_val s = foldl (\<lambda>a c. 10 * a + digit_val c) 0 s"

text \<open>\<^verbatim>\<open>s.padStart(n, '0')\<close>.\<close>

definition padStart0 :: "nat \<Rightarrow> string \<Rightarrow> string" where
  "padStart0 n s = replicate (n - length s) CHR ''0'' @ s"

text \<open>
  \<^verbatim>\<open>Number(s)\<close> on a component of a date or month key; \<open>None\<close> is NaN. The model reads the
  unsigned decimal digit strings, and the empty string as 0, exactly as JavaScript does.
  JavaScript also reads surrounding white space, a sign, a fraction, an exponent, a radix
  prefix and \<^verbatim>\<open>Infinity\<close>; the model answers NaN there, and the month keys the theorems
  below are about never have such a component.
\<close>

definition Number_js :: "string \<Rightarrow> int option" where
  "Number_js s = (if list_all is_digit s then Some (int (dec_val s)) else None)"

text \<open>String(n) for an integer.\<close>

definition String_int :: "int \<Rightarrow> string" where
  "String_int n = (if n < 0 then ''-'' @ digits_of (nat (- n)) else digits_of (nat n))"

text \<open>\<^verbatim>\<open>addLeadingZeros(number, targetLength)\<close> of date-fns: the sign, then the padded digits.\<close>

definition addLeadingZeros :: "int \<Rightarrow> nat \<Rightarrow> string" where
  "addLeadingZeros n len = (if n < 0 then ''-'' else '''') @ padStart0 len (digits_of (nat \<bar>n\<bar>))"

subsection \<open>Calendar and \<^verbatim>\<open>Date\<close>\<close>

type_synonym civil = "int \<times> int \<times> int"

definition leap_year :: "int \<Rightarrow> bool" where
  "leap_year y = (y mod 4 = 0 \<and> (y mod 100 \<noteq> 0 \<or> y mod 400 = 0))"

definition days_in_month :: "int \<Rightarrow> int \<Rightarrow> int" where
  "days_in_month y m =
     (if m = 2 then (if leap_year y then 29 else 28)
      else if m = 4 \<or> m = 6 \<or> m = 9 \<or> m = 11 then 30 else 31)"

text \<open>
  Day overflow of \<^verbatim>\<open>MakeDay\<close>: a day below 1 or beyond the month's length moves into the
  neighbouring months (the month argument is already in 1..12).
\<close>

function norm_day :: "int \<Rightarrow> int \<Rightarrow> int \<Rightarrow> civil" where
  "norm_day y m d =
     (if d < 1 then
        (let y' = (if m = 1 then y - 1 else y); m' = (if m = 1 then 12 else m - 1)
         in norm_day y' m' (d + days_in_month y' m'))
      else if days_in_month y m < d then
        (let y' = (if m = 12 then y + 1 else y); m' = (if m = 12 then 1 else m + 1)
         in norm_day y' m' (d - days_in_month y m))
      else (y, m, d))"
  by pat_completeness auto
termination
  by (relation "measure (\<lambda>(y, m, d).
        if d < 1 then nat (2 - d) else if days_in_month y m < d then nat d else 0)")
     (auto simp: days_in_month_def Let_def)

declare norm_day.simps [simp del]

text \<open>
  \<^verbatim>\<open>MakeDay(year, monthIndex, date)\<close>: the month index (0-based, any integer) carries into
  the year, then the day is counted from the first of that month.
\<close>

definition MakeDay :: "int \<Rightarrow> int \<Rightarrow> int \<Rightarrow> civil" where
  "MakeDay y mi d = norm_day (y + mi div 12) (mi mod 12 + 1) d"

text \<open>
  \<^verbatim>\<open>TimeClip\<close> for a local midnight: the time value has to lie within 100,000,000 days of
  the epoch, which for the zone \<open>tz\<close> (less than a day from UTC) bounds the local day.
\<close>

definition in_time_range :: "int \<Rightarrow> civil \<Rightarrow> bool" where
  "in_time_range tz c =
     ((if 0 < tz then (-271821, 4, 21) else (-271821, 4, 20)) \<le> c \<and>
      c \<le> (if 0 \<le> tz then (275760, 9, 13) else (275760, 9, 12)))"

text \<open>
  \<^verbatim>\<open>new Date(y, monthIndex, d)\<close> with numeric arguments that may be NaN. A year from 0 to 99
  means 1900 + year.
\<close>

definition new_Date :: "int \<Rightarrow> int option \<Rightarrow> int option \<Rightarrow> int option \<Rightarrow> civil option" where
  "new_Date tz y mi d =
     (case (y, mi, d) of
        (Some y, Some mi, Some d) \<Rightarrow>
          (let yr = (if 0 \<le> y \<and> y \<le> 99 then 1900 + y else y);
               c = MakeDay yr mi d
           in if in_time_range tz c then Some c else None)
      | _ \<Rightarrow> None)"

datatype error = RangeError

text \<open>
  \<^verbatim>\<open>format(date, 'yyyy-MM')\<close> of date-fns: throws on the Invalid Date; the year token prints
  the year of the era (1 - year for a year below 1) on at least four digits.
\<close>

definition fmt_yyyy :: "int \<Rightarrow> string" where
  "fmt_yyyy y = addLeadingZeros (if 0 < y then y else 1 - y) 4"

definition format_yyyy_MM :: "civil option \<Rightarrow> error + string" where
  "format_yyyy_MM date =
     (case date of None \<Rightarrow> Inl RangeError
      | Some (y, m, d) \<Rightarrow> Inr (fmt_yyyy y @ ''-'' @ addLeadingZeros m 2))"

text \<open>
  \<^verbatim>\<open>addMonths(date, amount)\<close> of date-fns: the same day in the month \<open>amount\<close> months away,
  or that month's last day when it is shorter; the Invalid Date stays invalid.
\<close>

definition addMonths :: "int \<Rightarrow> civil option \<Rightarrow> int \<Rightarrow> civil option" where
  "addMonths tz date amount =
     (case date of None \<Rightarrow> None
      | Some (y, m, d) \<Rightarrow>
          (let endOfDesiredMonth = MakeDay y (m - 1 + amount + 1) 0;
               daysInMonth = snd (snd endOfDesiredMonth);
               r = (if daysInMonth \<le> d then endOfDesiredMonth
                    else MakeDay (fst endOfDesiredMonth) (fst (snd endOfDesiredMonth) - 1) d)
           in if in_time_range tz endOfDesiredMonth \<and> in_time_range tz r then Some r else None))"

definition subMonths :: "int \<Rightarrow> civil option \<Rightarrow> int \<Rightarrow> civil option" where
  "subMonths tz date amount = addMonths tz date (- amount)"

text \<open>\<^verbatim>\<open>getDaysInMonth(date)\<close> of date-fns; \<open>None\<close> is NaN.\<close>

definition getDaysInMonth :: "civil option \<Rightarrow> int option" where
  "getDaysInMonth date = (case date of None \<Rightarrow> None | Some (y, m, d) \<Rightarrow> Some (days_in_month y m))"

text \<open>
  \<^verbatim>\<open>const [y, m] = monthKey.split('-').map(Number)\<close>: a missing second part is
  \<^verbatim>\<open>undefined\<close>, which the arithmetic that follows turns into NaN.
\<close>

definition month_key_parts :: "string \<Rightarrow> int option \<times> int option" where
  "month_key_parts monthKey =
     (case map Number_js (split_dash monthKey) of
        [] \<Rightarrow> (None, None)
      | [y] \<Rightarrow> (y, None)
      | y # m # _ \<Rightarrow> (y, m))"

definition prevMonth :: "int \<Rightarrow> string \<Rightarrow> error + string" where
  "prevMonth tz monthKey =
     (case month_key_parts monthKey of (y, m) \<Rightarrow>
        format_yyyy_MM (subMonths tz (new_Date tz y (map_option (\<lambda>m. m - 1) m) (Some 1)) 1))"

definition nextMonth :: "int \<Rightarrow> string \<Rightarrow> error + string" where
  "nextMonth tz monthKey =
     (case month_key_parts monthKey of (y, m) \<Rightarrow>
        format_yyyy_MM (addMonths tz (new_Date tz y (map_option (\<lambda>m. m - 1) m) (Some 1)) 1))"

text \<open>
  \<^verbatim>\<open>date.toISOString()\<close> of a local midnight: the UTC fields of that instant, which is
  \<open>tz\<close> minutes before the UTC midnight of the same civil day. Throws on the Invalid Date.
  Years outside 0..9999 print in the expanded form with a sign and six digits.
\<close>

definition iso_year :: "int \<Rightarrow> string" where
  "iso_year y =
     (if 0 \<le> y \<and> y \<le> 9999 then padStart0 4 (digits_of (nat y))
      else (if y < 0 then ''-'' else ''+'') @ padStart0 6 (digits_of (nat \<bar>y\<bar>)))"

definition utc_of_local_midnight :: "int \<Rightarrow> civil \<Rightarrow> civil \<times> int" where
  "utc_of_local_midnight tz c =
     (case c of (y, m, d) \<Rightarrow> (norm_day y m (d + (- tz) div 1440), (- tz) mod 1440))"

definition iso_of_local_midnight :: "int \<Rightarrow> civil \<Rightarrow> string" where
  "iso_of_local_midnight tz c =
     (case utc_of_local_midnight tz c of ((y, m, d), mins) \<Rightarrow>
        iso_year y @ ''-'' @ padStart0 2 (digits_of (nat m)) @ ''-''
        @ padStart0 2 (digits_of (nat d)) @ ''T''
        @ padStart0 2 (digits_of (nat (mins div 60))) @ '':''
        @ padStart0 2 (digits_of (nat (mins mod 60))) @ '':00.000Z'')"

definition toISOString :: "int \<Rightarrow> civil option \<Rightarrow> error + string" where
  "toISOString tz date =
     (case date of None \<Rightarrow> Inl RangeError | Some c \<Rightarrow> Inr (iso_of_local_midnight tz c))"

subsection \<open>\<^verbatim>\<open>parseLocalDate\<close>\<close>

text \<open>
  \<^verbatim>\<open>parseLocalDate\<close> receives arbitrary text, so its model takes the conversion \<^verbatim>\<open>Number\<close> as
  the parameter \<open>num\<close>: \<open>num s\<close> is \<open>None\<close> when \<^verbatim>\<open>Number(s)\<close> is NaN or infinite (an infinite
  component passes the \<^verbatim>\<open>isNaN\<close> test of the components and fails the one of the date; the
  result is the same), and otherwise the integer part of \<^verbatim>\<open>Number(s)\<close>, which is what the
  \<^verbatim>\<open>Date\<close> constructor uses. No operation of the body throws, so the result has no
  exception summand: \<open>None\<close> is \<^verbatim>\<open>null\<close>.
\<close>

definition parseLocalDate :: "(string \<Rightarrow> int option) \<Rightarrow> int \<Rightarrow> string \<Rightarrow> civil option" where
  "parseLocalDate num tz s =
     (let parts = split_dash s
      in if length parts \<noteq> 3 then None
         else (case map num parts of
                 [y, m, d] \<Rightarrow>
                   if y = None \<or> m = None \<or> d = None then None
                   else (let dt = new_Date tz y (map_option (\<lambda>m. m - 1) m) d
                         in if dt = None then None else dt)
               | _ \<Rightarrow> None))"

subsection \<open>Data model (\<^verbatim>\<open>types.ts\<close>)\<close>

record Category =
  cat_id :: string
  cat_name :: string
  icon :: string
  color :: string
  budget :: rat
  isFixed :: bool
  rollover :: bool

record Expense =
  exp_id :: string
  categoryId :: string
  amount :: rat
  exp_note :: string
  date :: string
  isRecurring :: bool
  recurringDayOfMonth :: "int option"

text \<open>\<^verbatim>\<open>Record<string, Record<string, number>>\<close>: month key, then category id.\<close>

type_synonym RolloverMap = "string \<Rightarrow> (string \<Rightarrow> rat option) option"

subsection \<open>Aggregation\<close>

definition expensesForMonth :: "Expense list \<Rightarrow> string \<Rightarrow> Expense list" where
  "expensesForMonth expenses month = filter (\<lambda>e. startsWith (date e) month) expenses"

text \<open>
  \<^verbatim>\<open>totalByCategory\<close>: the accumulator object is an association list in insertion order;
  \<^verbatim>\<open>acc[k] || 0\<close> reads a missing key, and a stored 0, as 0.
\<close>

definition or_zero :: "rat option \<Rightarrow> rat" where
  "or_zero v = (case v of None \<Rightarrow> 0 | Some x \<Rightarrow> (if x = 0 then 0 else x))"

definition totalByCategory :: "Expense list \<Rightarrow> (string \<times> rat) list" where
  "totalByCategory expenses =
     foldl (\<lambda>acc e. AList.update (categoryId e) (or_zero (map_of acc (categoryId e)) + amount e) acc)
       [] expenses"


subsection \<open>Rollover\<close>

text \<open>\<^verbatim>\<open>rollovers[prevMonthKey]?.[cat.id]\<close>\<close>

definition stored_rollover :: "RolloverMap \<Rightarrow> string \<Rightarrow> string \<Rightarrow> rat option" where
  "stored_rollover rollovers monthKey cid =
     (case rollovers monthKey of None \<Rightarrow> None | Some byCat \<Rightarrow> byCat cid)"

definition computeRollover :: "Category \<Rightarrow> string \<Rightarrow> Expense list \<Rightarrow> RolloverMap \<Rightarrow> rat" where
  "computeRollover cat prevMonthKey allExpenses rollovers =
     (if \<not> rollover cat \<or> budget cat = 0 then 0
      else case stored_rollover rollovers prevMonthKey (cat_id cat) of
        Some v \<Rightarrow> v
      | None \<Rightarrow>
          (let prevExpenses = expensesForMonth allExpenses prevMonthKey;
               spent = foldl (\<lambda>s e. s + amount e) 0
                         (filter (\<lambda>e. categoryId e = cat_id cat) prevExpenses)
           in max (budget cat - spent) 0))"

text \<open>\<^verbatim>\<open>currentMonth()\<close>; the clock's local date \<open>today\<close> is a parameter.\<close>

definition currentMonth :: "civil \<Rightarrow> error + string" where
  "currentMonth today = format_yyyy_MM (Some today)"

text \<open>The \<^verbatim>\<open>effectiveBudget\<close> callback of the budget context.\<close>

definition effectiveBudget ::
  "int \<Rightarrow> civil \<Rightarrow> Category list \<Rightarrow> Expense list \<Rightarrow> RolloverMap \<Rightarrow> string \<Rightarrow> error + rat" where
  "effectiveBudget tz today categories expenses rollovers catId =
     (case find (\<lambda>c. cat_id c = catId) categories of
        None \<Rightarrow> Inr 0
      | Some cat \<Rightarrow>
          if budget cat = 0 then Inr 0
          else (case currentMonth today of
                  Inl err \<Rightarrow> Inl err
                | Inr cur \<Rightarrow>
                    (case prevMonth tz cur of
                       Inl err \<Rightarrow> Inl err
                     | Inr prev \<Rightarrow> Inr (budget cat + computeRollover cat prev expenses rollovers))))"

subsection \<open>Recurring expenses\<close>

text \<open>\<^verbatim>\<open>Math.min\<close> on numbers that may be NaN.\<close>

definition Math_min :: "int option \<Rightarrow> int option \<Rightarrow> int option" where
  "Math_min a b = (case (a, b) of (Some x, Some y) \<Rightarrow> Some (min x y) | _ \<Rightarrow> None)"

definition alreadyExists :: "Expense list \<Rightarrow> Expense \<Rightarrow> bool" where
  "alreadyExists monthExpenses tmpl =
     list_ex (\<lambda>e. isRecurring e \<and> categoryId e = categoryId tmpl \<and> exp_note e = exp_note tmpl
                 \<and> amount e = amount tmpl) monthExpenses"

text \<open>
  The \<^verbatim>\<open>for\<close> loop of \<^verbatim>\<open>generateRecurringForMonth\<close>, with the array \<^verbatim>\<open>newEntries\<close> as
  accumulator. The source also builds a local day string \<^verbatim>\<open>dateStr\<close> in the loop body and
  never reads it (\<open>gen_dateStr\<close> below); the entry's date is the \<^verbatim>\<open>toISOString()\<close> of the local
  midnight, which throws on the Invalid Date.
\<close>

fun gen_loop ::
  "int \<Rightarrow> int option \<Rightarrow> int option \<Rightarrow> int option \<Rightarrow> string \<Rightarrow> Expense list \<Rightarrow>
   Expense list \<Rightarrow> Expense list \<Rightarrow> error + Expense list" where
  "gen_loop tz y m daysInMonth monthKey monthExpenses [] newEntries = Inr newEntries"
| "gen_loop tz y m daysInMonth monthKey monthExpenses (tmpl # templates) newEntries =
     (let day = Math_min (recurringDayOfMonth tmpl) daysInMonth
      in if \<not> alreadyExists monthExpenses tmpl then
           (case toISOString tz (new_Date tz y (map_option (\<lambda>m. m - 1) m) day) of
              Inl err \<Rightarrow> Inl err
            | Inr stamp \<Rightarrow>
                gen_loop tz y m daysInMonth monthKey monthExpenses templates
                  (newEntries @ [tmpl\<lparr>exp_id := exp_id tmpl @ ''_'' @ monthKey, date := stamp\<rparr>]))
         else gen_loop tz y m daysInMonth monthKey monthExpenses templates newEntries)"

definition generateRecurringForMonth :: "int \<Rightarrow> Expense list \<Rightarrow> string \<Rightarrow> error + Expense list" where
  "generateRecurringForMonth tz allExpenses monthKey =
     (case month_key_parts monthKey of (y, m) \<Rightarrow>
        (let daysInMonth = getDaysInMonth (new_Date tz y (map_option (\<lambda>m. m - 1) m) (Some 1));
             monthExpenses = expensesForMonth allExpenses monthKey;
             templates = filter (\<lambda>e. isRecurring e \<and> recurringDayOfMonth e \<noteq> None) allExpenses
         in gen_loop tz y m daysInMonth monthKey monthExpenses templates []))"

text \<open>The unused \<^verbatim>\<open>dateStr\<close> of the loop body: the local day as \<^verbatim>\<open>y-MM-dd\<close>.\<close>

definition gen_dateStr :: "int \<Rightarrow> int \<Rightarrow> int \<Rightarrow> string" where
  "gen_dateStr y m day = String_int y @ ''-'' @ padStart0 2 (String_int m) @ ''-'' @ padStart0 2 (String_int day)"

subsection \<open>Example data\<close>

definition catA :: Category where
  "catA = \<lparr>cat_id = ''catA'', cat_name = ''Food'', icon = ''f'', color = ''#fff'', budget = 100,
           isFixed = False, rollover = True\<rparr>"

definition catOff :: Category where
  "catOff = catA\<lparr>cat_id := ''catOff'', rollover := False\<rparr>"

definition janFood :: Expense where
  "janFood = \<lparr>exp_id = ''e1'', categoryId = ''catA'', amount = 60, exp_note = ''market'',
              date = ''2025-01-15T11:30:00.000Z'', isRecurring = False, recurringDayOfMonth = None\<rparr>"

text \<open>A rollover map that stores \<open>v\<close> for January 2025 and both example categories.\<close>

definition stored :: "rat \<Rightarrow> RolloverMap" where
  "stored v =
     (\<lambda>k. if k = ''2025-01''
          then Some (\<lambda>c. if c = ''catA'' \<or> c = ''catOff'' then Some v else None) else None)"

definition noRollovers :: RolloverMap where
  "noRollovers = (\<lambda>k. None)"

subsection \<open>CSV export\<close>

text \<open>
  An instant as \<^verbatim>\<open>new Date(isoString)\<close> reads it: the UTC civil date and the milliseconds
  elapsed in that day. The lexicographic order of these pairs is the order of \<^verbatim>\<open>getTime()\<close>.
\<close>

type_synonym instant = "civil \<times> int"

text \<open>
  \<^verbatim>\<open>new Date(s)\<close> for a date string; \<open>None\<close> is the Invalid Date. The model reads the form
  \<^verbatim>\<open>YYYY-MM-DDTHH:mm:ss.sssZ\<close> that \<^verbatim>\<open>toISOString()\<close> writes (the form of every date the app
  stores) with fields in range. The shorter ISO forms, explicit offsets and the
  implementation-defined fallback formats are not modelled: the model answers Invalid Date.
\<close>

definition Date_parse :: "string \<Rightarrow> instant option" where
  "Date_parse s =
     (let ys = take 4 s; ms = take 2 (drop 5 s); ds = take 2 (drop 8 s); hs = take 2 (drop 11 s);
          mis = take 2 (drop 14 s); ss = take 2 (drop 17 s); mss = take 3 (drop 20 s)
      in if length s = 24 \<and> s ! 4 = CHR ''-'' \<and> s ! 7 = CHR ''-'' \<and> s ! 10 = CHR ''T''
            \<and> s ! 13 = CHR '':'' \<and> s ! 16 = CHR '':'' \<and> s ! 19 = CHR ''.'' \<and> s ! 23 = CHR ''Z''
            \<and> list_all is_digit (ys @ ms @ ds @ hs @ mis @ ss @ mss)
         then
           (let y = int (dec_val ys); m = int (dec_val ms); d = int (dec_val ds);
                h = int (dec_val hs); mi = int (dec_val mis); sec = int (dec_val ss);
                msec = int (dec_val mss)
            in if 1 \<le> m \<and> m \<le> 12 \<and> 1 \<le> d \<and> d \<le> days_in_month y m
                  \<and> h \<le> 23 \<and> mi \<le> 59 \<and> sec \<le> 59
               then Some ((y, m, d), ((h * 60 + mi) * 60 + sec) * 1000 + msec)
               else None)
         else None)"

text \<open>The local calendar date of an instant, in the zone \<open>tz\<close> minutes ahead of UTC.\<close>

definition local_date :: "int \<Rightarrow> instant \<Rightarrow> civil" where
  "local_date tz t =
     (case t of ((y, m, d), msec) \<Rightarrow> norm_day y m (d + (msec + tz * 60000) div 86400000))"








subsection \<open>Notions used in the statements\<close>

text \<open>The month key of year \<open>y\<close> and month \<open>m\<close>, as \<^verbatim>\<open>format(date, 'yyyy-MM')\<close> prints it.\<close>

definition month_key :: "int \<Rightarrow> int \<Rightarrow> string" where
  "month_key y m = fmt_yyyy y @ ''-'' @ addLeadingZeros m 2"

text \<open>
  A valid month key: seven characters \<^verbatim>\<open>YYYY-MM\<close>, four digits, a dash, and two digits
  that name a month from 01 to 12.
\<close>

definition key_year :: "string \<Rightarrow> int" where
  "key_year k = int (dec_val (take 4 k))"

definition key_month :: "string \<Rightarrow> int" where
  "key_month k = int (dec_val (drop 5 k))"

definition valid_month_key :: "string \<Rightarrow> bool" where
  "valid_month_key k =
     (length k = 7 \<and> k ! 4 = CHR ''-'' \<and> list_all is_digit (take 4 k) \<and> list_all is_digit (drop 5 k)
      \<and> 1 \<le> key_month k \<and> key_month k \<le> 12)"

text \<open>The month after and the month before \<open>(y, m)\<close>.\<close>

definition succ_month :: "int \<times> int \<Rightarrow> int \<times> int" where
  "succ_month ym = (case ym of (y, m) \<Rightarrow> if m = 12 then (y + 1, 1) else (y, m + 1))"

definition pred_month :: "int \<times> int \<Rightarrow> int \<times> int" where
  "pred_month ym = (case ym of (y, m) \<Rightarrow> if m = 1 then (y - 1, 12) else (y, m - 1))"

text \<open>The fields the existence check of the generator compares.\<close>

definition same_recurring_key :: "Expense \<Rightarrow> Expense \<Rightarrow> bool" where
  "same_recurring_key e t =
     (categoryId e = categoryId t \<and> exp_note e = exp_note t \<and> amount e = amount t)"

text \<open>A template: recurring, with a day of the month.\<close>

definition is_template :: "Expense \<Rightarrow> bool" where
  "is_template e = (isRecurring e \<and> recurringDayOfMonth e \<noteq> None)"

text \<open>
  The instance of a template for a month key: the template's fields, except the id
  \<^verbatim>\<open><template.id>_<monthKey>\<close> and the date.
\<close>

definition instance_of :: "Expense \<Rightarrow> string \<Rightarrow> string \<Rightarrow> Expense" where
  "instance_of t k stamp = t\<lparr>exp_id := exp_id t @ ''_'' @ k, date := stamp\<rparr>"

definition rentT :: Expense where
  "rentT = \<lparr>exp_id = ''t1'', categoryId = ''c'', amount = 10, exp_note = ''rent'',
            date = ''2025-01-09T22:15:30.123Z'', isRecurring = True, recurringDayOfMonth = Some 1\<rparr>"

definition gymT :: Expense where
  "gymT = \<lparr>exp_id = ''t2'', categoryId = ''sport'', amount = 30, exp_note = ''gym'',
           date = ''2024-12-20T09:00:00.000Z'', isRecurring = True, recurringDayOfMonth = Some 31\<rparr>"



text \<open>A template whose day of the month is 0.\<close>

definition zeroDay :: Expense where
  "zeroDay = gymT\<lparr>recurringDayOfMonth := Some 0\<rparr>"

section \<open>Properties\<close>

subsection \<open>Aggregation\<close>

lemma foldl_add_amount: "foldl (\<lambda>s e. s + amount e) a es = a + sum_list (map amount es)"
  by (induction es arbitrary: a) (auto simp: algebra_simps)

lemma sum_snd_update:
  "distinct (map fst al) \<Longrightarrow>
   sum_list (map snd (AList.update k (or_zero (map_of al k) + a) al)) = sum_list (map snd al) + a"
proof (induction al)
  case Nil
  then show ?case by (simp add: or_zero_def)
next
  case (Cons p al)
  obtain k' v' where p: "p = (k', v')" by (cases p)
  show ?case
  proof (cases "k' = k")
    case True
    then show ?thesis using p by (simp add: or_zero_def)
  next
    case False
    then show ?thesis using p Cons by simp
  qed
qed

lemma totalByCategory_foldl:
  "distinct (map fst acc) \<Longrightarrow>
   distinct (map fst (foldl (\<lambda>acc e. AList.update (categoryId e)
       (or_zero (map_of acc (categoryId e)) + amount e) acc) acc es)) \<and>
   sum_list (map snd (foldl (\<lambda>acc e. AList.update (categoryId e)
       (or_zero (map_of acc (categoryId e)) + amount e) acc) acc es))
   = sum_list (map snd acc) + sum_list (map amount es)"
proof (induction es arbitrary: acc)
  case Nil
  then show ?case by simp
next
  case (Cons e es)
  have d: "distinct (map fst (AList.update (categoryId e)
       (or_zero (map_of acc (categoryId e)) + amount e) acc))"
    using Cons.prems by (rule distinct_update)
  show ?case
    using Cons.IH [OF d] sum_snd_update [OF Cons.prems] by (simp add: algebra_simps)
qed

text \<open>The result of \<^verbatim>\<open>totalByCategory\<close> is a mapping: no category id occurs twice.\<close>

lemma totalByCategory_distinct: "distinct (map fst (totalByCategory es))"
  using totalByCategory_foldl [of "[]" es] by (simp add: totalByCategory_def)



subsection \<open>Rollover\<close>

text \<open>
  C3. \<^verbatim>\<open>computeRollover\<close> returns 0 when the category has rollover disabled or a budget of
  0, also when an override is stored; otherwise the value stored for the previous month and
  the category, verbatim (a stored 0 included), whatever the expenses are; otherwise
  \<open>max (budget - spent) 0\<close>, where \<open>spent\<close> sums the amounts of the category's expenses dated in
  the previous month, so that the computed result is never negative.
\<close>

theorem computeRollover_cases:
  "(\<not> rollover cat \<or> budget cat = 0 \<longrightarrow> computeRollover cat pk E R = 0) \<and>
   (rollover cat \<and> budget cat \<noteq> 0 \<longrightarrow>
      (\<forall>byCat v. R pk = Some byCat \<and> byCat (cat_id cat) = Some v \<longrightarrow>
         computeRollover cat pk E R = v) \<and>
      ((R pk = None \<or> (\<exists>byCat. R pk = Some byCat \<and> byCat (cat_id cat) = None)) \<longrightarrow>
         computeRollover cat pk E R =
           max (budget cat - sum_list (map amount
                  (filter (\<lambda>e. startsWith (date e) pk \<and> categoryId e = cat_id cat) E))) 0
         \<and> 0 \<le> computeRollover cat pk E R))"
  by (auto simp: computeRollover_def stored_rollover_def expensesForMonth_def foldl_add_amount
        Let_def split: option.splits)

theorem computeRollover_cases_witness:
  "computeRollover catOff ''2025-01'' [janFood] (stored 7) = 0
   \<and> computeRollover catA ''2025-01'' [janFood] (stored 7) = 7
   \<and> computeRollover catA ''2025-01'' [janFood] (stored 0) = 0
   \<and> computeRollover catA ''2025-01'' [janFood] noRollovers = 40
   \<and> computeRollover catA ''2025-01'' [janFood, janFood\<lparr>amount := 70\<rparr>] noRollovers = 0"
  using computeRollover_cases [of catOff "''2025-01''" "[janFood]" "stored 7"]
        computeRollover_cases [of catA "''2025-01''" "[janFood]" "stored 7"]
        computeRollover_cases [of catA "''2025-01''" "[janFood]" "stored 0"]
        computeRollover_cases [of catA "''2025-01''" "[janFood]" noRollovers]
        computeRollover_cases [of catA "''2025-01''" "[janFood, janFood\<lparr>amount := 70\<rparr>]" noRollovers]
  by (simp add: catA_def catOff_def janFood_def stored_def noRollovers_def startsWith_def)

text \<open>
  C4, as the code has it. The effective budget of a known category is its budget plus the
  rollover credit that \<^verbatim>\<open>computeRollover\<close> returns, with no floor of its own (and 0 for a
  budget of 0). For a category with a non-negative budget it is not negative when the
  rollover map stores no negative value for the previous month and the category.
\<close>

theorem effectiveBudget_value:
  assumes "find (\<lambda>c. cat_id c = catId) categories = Some cat"
      and "currentMonth today = Inr cur" and "prevMonth tz cur = Inr prev"
  shows "effectiveBudget tz today categories expenses rollovers catId =
           Inr (if budget cat = 0 then 0
                else budget cat + computeRollover cat prev expenses rollovers)
         \<and> (0 \<le> budget cat
              \<and> (\<forall>byCat v. rollovers prev = Some byCat \<and> byCat (cat_id cat) = Some v \<longrightarrow> 0 \<le> v)
            \<longrightarrow> 0 \<le> (if budget cat = 0 then 0
                      else budget cat + computeRollover cat prev expenses rollovers))"
  using assms
  by (auto simp: effectiveBudget_def computeRollover_def stored_rollover_def Let_def
           split: option.splits)

theorem effectiveBudget_value_witness:
  "effectiveBudget 60 (2025, 2, 10) [catA] [janFood] noRollovers ''catA'' = Inr 140"
proof -
  have f: "find (\<lambda>c. cat_id c = ''catA'') [catA] = Some catA" by (simp add: catA_def)
  have c: "currentMonth (2025, 2, 10) = Inr ''2025-02''" by code_simp
  have p: "prevMonth 60 ''2025-02'' = Inr ''2025-01''" by code_simp
  have r: "computeRollover catA ''2025-01'' [janFood] noRollovers = 40" by code_simp
  have b: "budget catA = 100" by (simp add: catA_def)
  show ?thesis
    using effectiveBudget_value [OF f c p, of "[janFood]" noRollovers] by (simp add: r b)
qed

text \<open>
  C4 as stated fails: with a stored credit of -150 for the previous month, a category with
  budget 100 has the effective budget -50.
\<close>

theorem effectiveBudget_negative:
  "0 \<le> budget catA \<and>
   effectiveBudget 60 (2025, 2, 10) [catA] [janFood] (stored (- 150)) ''catA'' = Inr (- 50)"
proof -
  have "effectiveBudget 60 (2025, 2, 10) [catA] [janFood] (stored (- 150)) ''catA'' = Inr (- 50)"
    by code_simp
  then show ?thesis by (simp add: catA_def)
qed

subsection \<open>Decimal digits\<close>

lemma is_digit_digit_char: "d < 10 \<Longrightarrow> is_digit (digit_char d)"
  by (simp add: is_digit_def digit_char_def)

lemma digit_val_digit_char: "d < 10 \<Longrightarrow> digit_val (digit_char d) = d"
  by (simp add: digit_val_def digit_char_def)

lemma digit_char_digit_val: "is_digit c \<Longrightarrow> digit_char (digit_val c) = c"
  by (simp add: is_digit_def digit_char_def digit_val_def)

lemma digit_val_less: "is_digit c \<Longrightarrow> digit_val c < 10"
  by (auto simp: is_digit_def digit_val_def)

lemma is_digit_not_dash: "is_digit c \<Longrightarrow> c \<noteq> CHR ''-''"
  by (auto simp: is_digit_def)

lemma digits_of_all_digits: "list_all is_digit (digits_of n)"
proof (induction n rule: digits_of.induct)
  case (1 n)
  show ?case
  proof (cases "n < 10")
    case True
    then show ?thesis by (subst digits_of.simps) (simp add: is_digit_digit_char)
  next
    case False
    then show ?thesis using 1 by (subst digits_of.simps) (simp add: is_digit_digit_char)
  qed
qed

lemma dec_val_snoc: "dec_val (s @ [c]) = 10 * dec_val s + digit_val c"
  by (simp add: dec_val_def)

lemma dec_val_digits_of: "dec_val (digits_of n) = n"
proof (induction n rule: digits_of.induct)
  case (1 n)
  show ?case
  proof (cases "n < 10")
    case True
    then show ?thesis by (subst digits_of.simps) (simp add: dec_val_def digit_val_digit_char)
  next
    case False
    then have "dec_val (digits_of (n div 10)) = n div 10" using 1 by simp
    with False show ?thesis
      by (subst digits_of.simps) (simp add: dec_val_snoc digit_val_digit_char)
  qed
qed

lemma foldl_dec_zeros: "foldl (\<lambda>a c. 10 * a + digit_val c) 0 (replicate k CHR ''0'') = 0"
  by (induction k) (simp_all add: digit_val_def)

lemma dec_val_padStart0: "dec_val (padStart0 k s) = dec_val s"
  by (simp add: dec_val_def padStart0_def foldl_dec_zeros)

lemma is_digit_zero: "is_digit CHR ''0''"
  by (simp add: is_digit_def)

lemma padStart0_all_digits: "list_all is_digit s \<Longrightarrow> list_all is_digit (padStart0 k s)"
  by (auto simp: padStart0_def list_all_iff is_digit_zero)

lemma Number_js_padded: "Number_js (padStart0 k (digits_of n)) = Some (int n)"
  by (simp add: Number_js_def padStart0_all_digits digits_of_all_digits dec_val_padStart0
        dec_val_digits_of)

lemma digits_of_nonempty: "digits_of n \<noteq> []"
  by (subst digits_of.simps) simp

lemma digits_of_step: "d < 10 \<Longrightarrow> 0 < a \<Longrightarrow> digits_of (10 * a + d) = digits_of a @ [digit_char d]"
  by (subst digits_of.simps) simp

lemma digits_of_small: "d < 10 \<Longrightarrow> digits_of d = [digit_char d]"
  by (subst digits_of.simps) simp

lemma length_digits_of_dec_val: "list_all is_digit s \<Longrightarrow> s \<noteq> [] \<Longrightarrow> length (digits_of (dec_val s)) \<le> length s"
proof (induction s rule: rev_induct)
  case Nil
  then show ?case by simp
next
  case (snoc c s)
  then have c: "digit_val c < 10" by (simp add: digit_val_less)
  show ?case
  proof (cases "dec_val s = 0")
    case True
    then show ?thesis using c by (simp add: dec_val_snoc digits_of_small)
  next
    case False
    then have "s \<noteq> []" by (auto simp: dec_val_def)
    then show ?thesis using snoc c False by (simp add: dec_val_snoc digits_of_step)
  qed
qed

lemma digit_char_0: "digit_char 0 = CHR ''0''"
  unfolding digit_char_def by code_simp

lemma dec_val_zero_replicate: "list_all is_digit s \<Longrightarrow> dec_val s = 0 \<Longrightarrow> s = replicate (length s) CHR ''0''"
proof (induction s rule: rev_induct)
  case Nil
  then show ?case by simp
next
  case (snoc c s)
  then have z: "dec_val s = 0" and "digit_val c = 0" by (simp_all add: dec_val_snoc)
  moreover have "digit_char (digit_val c) = c" using snoc.prems by (simp add: digit_char_digit_val)
  ultimately have c0: "c = CHR ''0''" using digit_char_0 by simp
  have "s = replicate (length s) CHR ''0''" using snoc z by simp
  then have "s @ [c] = replicate (length s) CHR ''0'' @ [CHR ''0'']" using c0 by simp
  then show ?case by (simp add: replicate_append_same)
qed

lemma padStart0_digits_of_dec_val:
  "list_all is_digit s \<Longrightarrow> s \<noteq> [] \<Longrightarrow> padStart0 (length s) (digits_of (dec_val s)) = s"
proof (induction s rule: rev_induct)
  case Nil
  then show ?case by simp
next
  case (snoc c s)
  then have c: "digit_val c < 10" and cc: "digit_char (digit_val c) = c" and ds: "list_all is_digit s"
    by (simp_all add: digit_val_less digit_char_digit_val)
  show ?case
  proof (cases "dec_val s = 0")
    case True
    then have "s = replicate (length s) CHR ''0''" using ds by (rule dec_val_zero_replicate[rotated])
    then show ?thesis using c cc True
      by (simp add: dec_val_snoc digits_of_small padStart0_def) 
  next
    case False
    then have ne: "s \<noteq> []" by (auto simp: dec_val_def)
    have le: "length (digits_of (dec_val s)) \<le> length s"
      using ds ne by (rule length_digits_of_dec_val)
    have "padStart0 (length s) (digits_of (dec_val s)) = s" using snoc ne ds by simp
    then show ?thesis using c cc False le
      by (simp add: dec_val_snoc digits_of_step padStart0_def Suc_diff_le)
  qed
qed

subsection \<open>Month keys\<close>

lemma split_dash_no_dash: "CHR ''-'' \<notin> set s \<Longrightarrow> split_dash s = [s]"
  by (induction s) auto

lemma split_dash_append:
  "CHR ''-'' \<notin> set a \<Longrightarrow> split_dash (a @ CHR ''-'' # b) = a # split_dash b"
  by (induction a) auto

lemma digits_no_dash: "list_all is_digit s \<Longrightarrow> CHR ''-'' \<notin> set s"
  using is_digit_not_dash by (auto simp: list_all_iff)

lemma month_key_parts_digits:
  assumes "list_all is_digit a" and "list_all is_digit b"
  shows "month_key_parts (a @ ''-'' @ b) = (Some (int (dec_val a)), Some (int (dec_val b)))"
proof -
  have "split_dash (a @ ''-'' @ b) = [a, b]"
    using assms by (simp add: split_dash_append split_dash_no_dash digits_no_dash)
  then show ?thesis using assms by (simp add: month_key_parts_def Number_js_def)
qed

lemma month_key_parts_month_key:
  assumes "1 \<le> y" and "0 \<le> m"
  shows "month_key_parts (month_key y m) = (Some y, Some m)"
proof -
  have k: "month_key y m = padStart0 4 (digits_of (nat y)) @ ''-'' @ padStart0 2 (digits_of (nat m))"
    using assms by (simp add: month_key_def fmt_yyyy_def addLeadingZeros_def)
  show ?thesis
    unfolding k using assms
    by (subst month_key_parts_digits)
       (simp_all add: padStart0_all_digits digits_of_all_digits dec_val_padStart0 dec_val_digits_of)
qed

lemma valid_month_key_split:
  assumes "valid_month_key k"
  shows "k = take 4 k @ ''-'' @ drop 5 k"
proof -
  have "k = take 4 k @ drop 4 k" by simp
  moreover have "k ! 4 # drop (Suc 4) k = drop 4 k"
    using assms by (intro Cons_nth_drop_Suc) (simp add: valid_month_key_def)
  then have "drop 4 k = k ! 4 # drop 5 k" by simp
  ultimately show ?thesis using assms by (simp add: valid_month_key_def)
qed

lemma valid_month_key_is_month_key:
  assumes "valid_month_key k" and "1 \<le> key_year k"
  shows "k = month_key (key_year k) (key_month k)"
proof -
  have l4: "length (take 4 k) = 4" and l2: "length (drop 5 k) = 2"
    using assms by (simp_all add: valid_month_key_def)
  have ne: "take 4 k \<noteq> []" "drop 5 k \<noteq> []" using l4 l2 by auto
  have a: "padStart0 4 (digits_of (dec_val (take 4 k))) = take 4 k"
    using padStart0_digits_of_dec_val [of "take 4 k"] assms l4 ne(1)
    by (simp add: valid_month_key_def)
  have b: "padStart0 2 (digits_of (dec_val (drop 5 k))) = drop 5 k"
    using padStart0_digits_of_dec_val [of "drop 5 k"] assms l2 ne(2)
    by (simp add: valid_month_key_def)
  have "month_key (key_year k) (key_month k) = take 4 k @ ''-'' @ drop 5 k"
    using assms a b by (simp add: month_key_def fmt_yyyy_def addLeadingZeros_def key_year_def key_month_def)
  then show ?thesis using valid_month_key_split [OF assms(1)] by simp
qed

subsection \<open>Dates\<close>

lemma days_in_month_bounds: "28 \<le> days_in_month y m \<and> days_in_month y m \<le> 31"
  by (simp add: days_in_month_def)

lemma norm_day_id: "1 \<le> d \<Longrightarrow> d \<le> days_in_month y m \<Longrightarrow> norm_day y m d = (y, m, d)"
  by (subst norm_day.simps) simp

lemma norm_day_zero:
  "norm_day y m 0 = (case pred_month (y, m) of (y', m') \<Rightarrow> (y', m', days_in_month y' m'))"
proof -
  have "28 \<le> days_in_month (if m = 1 then y - 1 else y) (if m = 1 then 12 else m - 1)"
    using days_in_month_bounds by blast
  then show ?thesis
    by (subst norm_day.simps) (simp add: Let_def pred_month_def norm_day_id)
qed

lemma MakeDay_valid:
  "1 \<le> m \<Longrightarrow> m \<le> 12 \<Longrightarrow> 1 \<le> d \<Longrightarrow> d \<le> days_in_month y m \<Longrightarrow> MakeDay y (m - 1) d = (y, m, d)"
  by (simp add: MakeDay_def norm_day_id)

lemma in_time_range_years: "- 271820 \<le> y \<Longrightarrow> y \<le> 275759 \<Longrightarrow> in_time_range tz (y, m, d)"
  by (auto simp: in_time_range_def less_eq_prod_def)

lemma new_Date_valid:
  assumes "100 \<le> y" "y \<le> 275759" "1 \<le> m" "m \<le> 12" "1 \<le> d" "d \<le> days_in_month y m"
  shows "new_Date tz (Some y) (Some (m - 1)) (Some d) = Some (y, m, d)"
  using assms by (simp add: new_Date_def MakeDay_valid in_time_range_years)

lemma addMonths_first_next:
  assumes "- 271820 \<le> y" "y < 275759" "1 \<le> m" "m \<le> 12"
  shows "addMonths tz (Some (y, m, 1)) 1 = Some (case succ_month (y, m) of (y', m') \<Rightarrow> (y', m', 1))"
proof -
  consider "m \<le> 10" | "m = 11" | "m = 12" using assms by linarith
  then have e: "MakeDay y (m - 1 + 1 + 1) 0 =
      (case succ_month (y, m) of (y', m') \<Rightarrow> (y', m', days_in_month y' m'))"
  proof cases
    case 1
    then have "(m + 1) div 12 = 0" "(m + 1) mod 12 = m + 1" using assms by simp_all
    then show ?thesis using 1 assms
      by (simp add: MakeDay_def norm_day_zero pred_month_def succ_month_def add.commute)
  next
    case 2
    then show ?thesis by (simp add: MakeDay_def norm_day_zero pred_month_def succ_month_def)
  next
    case 3
    then show ?thesis by (simp add: MakeDay_def norm_day_zero pred_month_def succ_month_def)
  qed
  obtain y' m' where s: "succ_month (y, m) = (y', m')" by (cases "succ_month (y, m)")
  have b: "1 \<le> m'" "m' \<le> 12" "y \<le> y'" "y' \<le> y + 1"
    using s assms by (auto simp: succ_month_def split: if_splits)
  have "28 \<le> days_in_month y' m'" using days_in_month_bounds by blast
  then show ?thesis using e s b assms
    by (simp add: addMonths_def Let_def MakeDay_valid in_time_range_years)
qed

lemma addMonths_first_prev:
  assumes "- 271820 < y" "y \<le> 275759" "1 \<le> m" "m \<le> 12"
  shows "addMonths tz (Some (y, m, 1)) (- 1) = Some (case pred_month (y, m) of (y', m') \<Rightarrow> (y', m', 1))"
proof -
  have "(m - 1) div 12 = 0" "(m - 1) mod 12 = m - 1" using assms by simp_all
  then have e: "MakeDay y (m - 1 + - 1 + 1) 0 =
      (case pred_month (y, m) of (y', m') \<Rightarrow> (y', m', days_in_month y' m'))"
    by (simp add: MakeDay_def norm_day_zero)
  obtain y' m' where s: "pred_month (y, m) = (y', m')" by (cases "pred_month (y, m)")
  have b: "1 \<le> m'" "m' \<le> 12" "y - 1 \<le> y'" "y' \<le> y"
    using s assms by (auto simp: pred_month_def split: if_splits)
  have "28 \<le> days_in_month y' m'" using days_in_month_bounds by blast
  then show ?thesis using e s b assms
    by (simp add: addMonths_def Let_def MakeDay_valid in_time_range_years)
qed

lemma nextMonth_month_key:
  assumes "100 \<le> y" "y < 275759" "1 \<le> m" "m \<le> 12"
  shows "nextMonth tz (month_key y m) = Inr (case succ_month (y, m) of (y', m') \<Rightarrow> month_key y' m')"
proof -
  have p: "month_key_parts (month_key y m) = (Some y, Some m)"
    using assms by (simp add: month_key_parts_month_key)
  have d: "new_Date tz (Some y) (Some (m - 1)) (Some 1) = Some (y, m, 1)"
    using assms days_in_month_bounds [of y m] by (simp add: new_Date_valid)
  have a: "addMonths tz (Some (y, m, 1)) 1 = Some (case succ_month (y, m) of (y', m') \<Rightarrow> (y', m', 1))"
    using assms by (simp add: addMonths_first_next)
  show ?thesis
    unfolding nextMonth_def p
    by (simp add: d a format_yyyy_MM_def month_key_def split: prod.splits)
qed

lemma prevMonth_month_key:
  assumes "100 \<le> y" "y \<le> 275759" "1 \<le> m" "m \<le> 12"
  shows "prevMonth tz (month_key y m) = Inr (case pred_month (y, m) of (y', m') \<Rightarrow> month_key y' m')"
proof -
  have p: "month_key_parts (month_key y m) = (Some y, Some m)"
    using assms by (simp add: month_key_parts_month_key)
  have d: "new_Date tz (Some y) (Some (m - 1)) (Some 1) = Some (y, m, 1)"
    using assms days_in_month_bounds [of y m] by (simp add: new_Date_valid)
  have a: "addMonths tz (Some (y, m, 1)) (- 1) = Some (case pred_month (y, m) of (y', m') \<Rightarrow> (y', m', 1))"
    using assms by (simp add: addMonths_first_prev)
  show ?thesis
    unfolding prevMonth_def p
    by (simp add: subMonths_def d a format_yyyy_MM_def month_key_def split: prod.splits)
qed

subsection \<open>Month arithmetic\<close>

lemma dec_val_bound: "list_all is_digit s \<Longrightarrow> dec_val s < 10 ^ length s"
proof (induction s rule: rev_induct)
  case Nil
  then show ?case by (simp add: dec_val_def)
next
  case (snoc c s)
  then have "digit_val c < 10" and "dec_val s < 10 ^ length s"
    by (simp_all add: digit_val_less)
  then show ?case by (simp add: dec_val_snoc)
qed

lemma key_year_bound: "valid_month_key k \<Longrightarrow> key_year k \<le> 9999"
  using dec_val_bound [of "take 4 k"] by (simp add: valid_month_key_def key_year_def)

lemma pred_succ_month: "1 \<le> m \<Longrightarrow> m \<le> 12 \<Longrightarrow> pred_month (succ_month (y, m)) = (y, m)"
  by (simp add: pred_month_def succ_month_def)

lemma succ_pred_month: "1 \<le> m \<Longrightarrow> m \<le> 12 \<Longrightarrow> succ_month (pred_month (y, m)) = (y, m)"
  by (simp add: pred_month_def succ_month_def)

lemma month_key_examples:
  "month_key 100 1 = ''0100-01''" "month_key 2024 12 = ''2024-12''" "month_key 2025 1 = ''2025-01''"
  by code_simp+

text \<open>
  C7, as the code has it. For every valid month key \<^verbatim>\<open>YYYY-MM\<close> whose year is at least 0100,
  \<^verbatim>\<open>prevMonth(nextMonth(m)) = m\<close>; \<^verbatim>\<open>nextMonth(prevMonth(m)) = m\<close> as well unless \<open>m\<close> is
  \<^verbatim>\<open>0100-01\<close> (whose previous month lies in the year 99); and the year boundary is crossed
  correctly: \<^verbatim>\<open>nextMonth("2024-12") = "2025-01"\<close> and \<^verbatim>\<open>prevMonth("2025-01") = "2024-12"\<close>.
\<close>

theorem month_round_trip:
  assumes "valid_month_key k" and "100 \<le> key_year k"
  shows "(\<exists>k'. nextMonth tz k = Inr k' \<and> prevMonth tz k' = Inr k)
       \<and> (k \<noteq> ''0100-01'' \<longrightarrow> (\<exists>k'. prevMonth tz k = Inr k' \<and> nextMonth tz k' = Inr k))
       \<and> nextMonth tz ''2024-12'' = Inr ''2025-01'' \<and> prevMonth tz ''2025-01'' = Inr ''2024-12''"
proof -
  define y m where "y = key_year k" and "m = key_month k"
  have k: "k = month_key y m"
    using assms valid_month_key_is_month_key [of k] by (simp add: y_def m_def)
  have y: "100 \<le> y" "y \<le> 9999" and m: "1 \<le> m" "m \<le> 12"
    using assms key_year_bound [of k] by (simp_all add: y_def m_def valid_month_key_def)
  obtain ys ms where s: "succ_month (y, m) = (ys, ms)" by (cases "succ_month (y, m)")
  have sb: "100 \<le> ys" "ys \<le> 10000" "1 \<le> ms" "ms \<le> 12"
    using s y m by (auto simp: succ_month_def split: if_splits)
  have n1: "nextMonth tz k = Inr (month_key ys ms)"
    unfolding k using y m s by (simp add: nextMonth_month_key)
  have "prevMonth tz (month_key ys ms) = Inr (case pred_month (ys, ms) of (y', m') \<Rightarrow> month_key y' m')"
    using sb by (intro prevMonth_month_key) simp_all
  then have p1: "prevMonth tz (month_key ys ms) = Inr k"
    using pred_succ_month [OF m, of y] s k by simp
  have first: "\<exists>k'. nextMonth tz k = Inr k' \<and> prevMonth tz k' = Inr k"
    using n1 p1 by blast
  have second: "\<exists>k'. prevMonth tz k = Inr k' \<and> nextMonth tz k' = Inr k" if ne: "k \<noteq> ''0100-01''"
  proof -
    obtain yp mp where p: "pred_month (y, m) = (yp, mp)" by (cases "pred_month (y, m)")
    have "\<not> (y = 100 \<and> m = 1)" using ne k month_key_examples(1) by auto
    then have pb: "100 \<le> yp" "yp \<le> 9999" "1 \<le> mp" "mp \<le> 12"
      using p y m by (auto simp: pred_month_def split: if_splits)
    have p2: "prevMonth tz k = Inr (month_key yp mp)"
      unfolding k using y m p by (simp add: prevMonth_month_key)
    have "nextMonth tz (month_key yp mp) = Inr (case succ_month (yp, mp) of (y', m') \<Rightarrow> month_key y' m')"
      using pb by (intro nextMonth_month_key) simp_all
    then have "nextMonth tz (month_key yp mp) = Inr k"
      using succ_pred_month [OF m, of y] p k by simp
    with p2 show ?thesis by blast
  qed
  have "nextMonth tz (month_key 2024 12) = Inr (case succ_month (2024, 12) of (y', m') \<Rightarrow> month_key y' m')"
    by (intro nextMonth_month_key) simp_all
  then have ex1: "nextMonth tz ''2024-12'' = Inr ''2025-01''"
    by (simp add: month_key_examples succ_month_def)
  have "prevMonth tz (month_key 2025 1) = Inr (case pred_month (2025, 1) of (y', m') \<Rightarrow> month_key y' m')"
    by (intro prevMonth_month_key) simp_all
  then have ex2: "prevMonth tz ''2025-01'' = Inr ''2024-12''"
    by (simp add: month_key_examples pred_month_def)
  show ?thesis using first second ex1 ex2 by blast
qed

theorem month_round_trip_witness:
  "valid_month_key ''2024-12'' \<and> 100 \<le> key_year ''2024-12''
   \<and> (\<exists>k'. nextMonth 60 ''2024-12'' = Inr k' \<and> prevMonth 60 k' = Inr ''2024-12'')
   \<and> (\<exists>k'. prevMonth 60 ''2024-12'' = Inr k' \<and> nextMonth 60 k' = Inr ''2024-12'')"
proof -
  have v: "valid_month_key ''2024-12''" by code_simp
  have y: "100 \<le> key_year ''2024-12''" by code_simp
  show ?thesis using month_round_trip [OF v y, of 60] v y by simp
qed

text \<open>
  C7 as stated fails on a valid key with a year below 100: \<^verbatim>\<open>new Date(50, 0, 1)\<close> is
  January 1950, so the round trip from \<^verbatim>\<open>0050-01\<close> ends at \<^verbatim>\<open>1950-01\<close>.
\<close>

theorem month_round_trip_two_digit_year:
  "valid_month_key ''0050-01'' \<and> nextMonth 60 ''0050-01'' = Inr ''1950-02''
   \<and> prevMonth 60 ''1950-02'' = Inr ''1950-01'' \<and> ''1950-01'' \<noteq> ''0050-01''"
  by code_simp

subsection \<open>Recurring expenses\<close>

lemma alreadyExists_iff:
  "alreadyExists mes t = (\<exists>e\<in>set mes. isRecurring e \<and> same_recurring_key e t)"
  by (auto simp: alreadyExists_def same_recurring_key_def list_ex_iff)

lemma gen_loop_result:
  "gen_loop tz y m dm k mes ts acc = Inr out \<longleftrightarrow>
     (\<forall>t\<in>set ts. \<not> alreadyExists mes t \<longrightarrow>
        \<not> Option.is_none
          (new_Date tz y (map_option (\<lambda>m. m - 1) m) (Math_min (recurringDayOfMonth t) dm))) \<and>
     out = acc @ map (\<lambda>t. instance_of t k (iso_of_local_midnight tz
              (the (new_Date tz y (map_option (\<lambda>m. m - 1) m) (Math_min (recurringDayOfMonth t) dm)))))
            (filter (\<lambda>t. \<not> alreadyExists mes t) ts)"
proof (induction ts arbitrary: acc)
  case Nil
  then show ?case by auto
next
  case (Cons t ts)
  show ?case
  proof (cases "alreadyExists mes t")
    case True
    then show ?thesis using Cons.IH [of acc] by simp
  next
    case False
    show ?thesis
    proof (cases "new_Date tz y (map_option (\<lambda>m. m - 1) m) (Math_min (recurringDayOfMonth t) dm)")
      case None
      then show ?thesis using False by (simp add: toISOString_def)
    next
      case (Some c)
      then show ?thesis
        using False Cons.IH [of "acc @ [instance_of t k (iso_of_local_midnight tz c)]"]
        by (auto simp: toISOString_def instance_of_def)
    qed
  qed
qed

lemma generate_result:
  assumes "generateRecurringForMonth tz E k = Inr out" and "e \<in> set out"
  shows "\<exists>t\<in>set E. is_template t \<and> \<not> alreadyExists (expensesForMonth E k) t
           \<and> same_recurring_key e t \<and> exp_id e = exp_id t @ ''_'' @ k"
proof -
  obtain y m where p: "month_key_parts k = (y, m)" by (cases "month_key_parts k")
  from assms(1) show ?thesis
    using assms(2)
    by (auto simp: generateRecurringForMonth_def p Let_def gen_loop_result is_template_def
          instance_of_def same_recurring_key_def)
qed

text \<open>
  C10. A recurring entry whose own date string starts with the month key is found by the
  existence check of a run for that month, so the run emits no entry with the category,
  note and amount of that entry: a template is never duplicated in the month its own
  entry lies in.
\<close>

theorem template_not_duplicated_in_own_month:
  assumes "t \<in> set E" and "isRecurring t" and "startsWith (date t) k"
      and "generateRecurringForMonth tz E k = Inr out"
  shows "alreadyExists (expensesForMonth E k) t \<and> (\<forall>e\<in>set out. \<not> same_recurring_key e t)"
proof -
  have ex: "alreadyExists (expensesForMonth E k) t"
    using assms(1-3) by (auto simp: alreadyExists_iff expensesForMonth_def same_recurring_key_def)
  have "\<not> same_recurring_key e t" if eo: "e \<in> set out" for e
  proof
    assume s: "same_recurring_key e t"
    obtain u where u: "u \<in> set E" "\<not> alreadyExists (expensesForMonth E k) u" "same_recurring_key e u"
      using generate_result [OF assms(4) eo] by blast
    have "same_recurring_key t u" using s u(3) by (simp add: same_recurring_key_def)
    then have "alreadyExists (expensesForMonth E k) u"
      using assms(1-3) by (auto simp: alreadyExists_iff expensesForMonth_def)
    with u(2) show False by simp
  qed
  with ex show ?thesis by blast
qed

theorem template_not_duplicated_in_own_month_witness:
  "rentT \<in> set [rentT, gymT] \<and> isRecurring rentT \<and> startsWith (date rentT) ''2025-01''
   \<and> generateRecurringForMonth 60 [rentT, gymT] ''2025-01'' =
      Inr [instance_of gymT ''2025-01'' ''2025-01-30T23:00:00.000Z'']
   \<and> alreadyExists (expensesForMonth [rentT, gymT] ''2025-01'') rentT
   \<and> \<not> same_recurring_key (instance_of gymT ''2025-01'' ''2025-01-30T23:00:00.000Z'') rentT"
proof -
  have a: "rentT \<in> set [rentT, gymT]" by simp
  have b: "isRecurring rentT" by (simp add: rentT_def)
  have c: "startsWith (date rentT) ''2025-01''" by (simp add: rentT_def startsWith_def)
  have d: "generateRecurringForMonth 60 [rentT, gymT] ''2025-01'' =
      Inr [instance_of gymT ''2025-01'' ''2025-01-30T23:00:00.000Z'']"
    by code_simp
  show ?thesis
    using template_not_duplicated_in_own_month [OF a b c d] a b c d by simp
qed

lemma generate_valid:
  assumes "valid_month_key k" and "100 \<le> key_year k"
      and "\<forall>t\<in>set E. is_template t \<and> \<not> alreadyExists (expensesForMonth E k) t
             \<longrightarrow> 1 \<le> the (recurringDayOfMonth t)"
  shows "generateRecurringForMonth tz E k =
     Inr (map (\<lambda>t. instance_of t k (iso_of_local_midnight tz
                (key_year k, key_month k,
                 min (the (recurringDayOfMonth t)) (days_in_month (key_year k) (key_month k)))))
           (filter (\<lambda>t. is_template t \<and> \<not> alreadyExists (expensesForMonth E k) t) E))"
proof -
  define y m where "y = key_year k" and "m = key_month k"
  have k: "k = month_key y m"
    using assms valid_month_key_is_month_key [of k] by (simp add: y_def m_def)
  have y: "100 \<le> y" "y \<le> 9999" and m: "1 \<le> m" "m \<le> 12"
    using assms key_year_bound [of k] by (simp_all add: y_def m_def valid_month_key_def)
  have p: "month_key_parts k = (Some y, Some m)"
    unfolding k using y m by (simp add: month_key_parts_month_key)
  have d1: "new_Date tz (Some y) (Some (m - 1)) (Some 1) = Some (y, m, 1)"
    using y m days_in_month_bounds [of y m] by (simp add: new_Date_valid)
  have dd: "new_Date tz (Some y) (Some (m - 1))
              (Math_min (recurringDayOfMonth t) (Some (days_in_month y m)))
            = Some (y, m, min (the (recurringDayOfMonth t)) (days_in_month y m))"
    if tt: "is_template t" and rd: "1 \<le> the (recurringDayOfMonth t)" for t
  proof -
    obtain d where d: "recurringDayOfMonth t = Some d" using tt by (auto simp: is_template_def)
    have "1 \<le> min d (days_in_month y m)" using rd d days_in_month_bounds [of y m] by simp
    then show ?thesis using y m d by (simp add: Math_min_def new_Date_valid)
  qed
  let ?mes = "expensesForMonth E k"
  let ?ts = "filter (\<lambda>e. isRecurring e \<and> recurringDayOfMonth e \<noteq> None) E"
  have ok: "\<forall>t\<in>set ?ts. \<not> alreadyExists ?mes t \<longrightarrow>
        \<not> Option.is_none (new_Date tz (Some y) (map_option (\<lambda>m. m - 1) (Some m))
            (Math_min (recurringDayOfMonth t) (Some (days_in_month y m))))"
    using assms(3) dd by (auto simp: is_template_def)
  have eq: "map (\<lambda>t. instance_of t k (iso_of_local_midnight tz
              (the (new_Date tz (Some y) (map_option (\<lambda>m. m - 1) (Some m))
                 (Math_min (recurringDayOfMonth t) (Some (days_in_month y m)))))))
            (filter (\<lambda>t. \<not> alreadyExists ?mes t) ?ts)
          = map (\<lambda>t. instance_of t k (iso_of_local_midnight tz
                (y, m, min (the (recurringDayOfMonth t)) (days_in_month y m))))
            (filter (\<lambda>t. is_template t \<and> \<not> alreadyExists ?mes t) E)"
    using assms(3) dd by (auto simp: is_template_def intro!: map_cong)
  have "gen_loop tz (Some y) (Some m) (Some (days_in_month y m)) k ?mes ?ts [] =
        Inr (map (\<lambda>t. instance_of t k (iso_of_local_midnight tz
                (y, m, min (the (recurringDayOfMonth t)) (days_in_month y m))))
            (filter (\<lambda>t. is_template t \<and> \<not> alreadyExists ?mes t) E))"
    unfolding gen_loop_result using ok eq by simp
  then show ?thesis
    unfolding generateRecurringForMonth_def p
    by (simp add: d1 getDaysInMonth_def Let_def flip: y_def m_def)
qed

lemma same_recurring_key_instance_of [simp]:
  "same_recurring_key (instance_of t k s) u = same_recurring_key t u"
  by (simp add: same_recurring_key_def instance_of_def)





text \<open>
  C1 (idempotence of the generator: a second run for the same month, after the entries of
  the first were appended, returns the empty list) fails on the code in a zone ahead of UTC.
  In UTC+1 the run for February 2025 dates the instance of a template for day 1 at
  \<^verbatim>\<open>2025-01-31T23:00:00.000Z\<close>, the UTC form of the local midnight, which the month filter
  does not count for \<^verbatim>\<open>2025-02\<close>; the second run therefore emits the instance again, and one
  more for the instance itself. The local day string the loop builds and never uses is
  \<^verbatim>\<open>2025-02-01\<close>.
\<close>

theorem recurring_second_run_not_empty:
  "generateRecurringForMonth 60 [rentT] ''2025-02'' =
     Inr [instance_of rentT ''2025-02'' ''2025-01-31T23:00:00.000Z'']
   \<and> generateRecurringForMonth 60
       ([rentT] @ [instance_of rentT ''2025-02'' ''2025-01-31T23:00:00.000Z'']) ''2025-02'' =
     Inr [instance_of rentT ''2025-02'' ''2025-01-31T23:00:00.000Z'',
          instance_of (instance_of rentT ''2025-02'' ''2025-01-31T23:00:00.000Z'') ''2025-02''
            ''2025-01-31T23:00:00.000Z'']
   \<and> gen_dateStr 2025 2 1 = ''2025-02-01''"
  by code_simp

subsection \<open>CSV export\<close>


lemma find_append_cases:
  "find P (xs @ ys) = (case find P xs of None \<Rightarrow> find P ys | Some x \<Rightarrow> Some x)"
  by (induction xs) auto




lemma length_padStart0: "length (padStart0 n s) = max n (length s)"
  by (simp add: padStart0_def)









subsection \<open>\<^verbatim>\<open>parseLocalDate\<close>\<close>

text \<open>
  C5, as the code has it. \<^verbatim>\<open>parseLocalDate\<close> returns the absent result whenever the string does
  not split at its dashes into exactly three parts, and whenever one of the three parts is not
  numeric; it cannot throw. For three parts that read as a year from 100 to 9999, a month from
  1 to 12 and a day of that month, it returns the local midnight of that date. (What the code
  answers for numeric parts that name no calendar date is left open here.)
\<close>

theorem parseLocalDate_results:
  "(length (split_dash s) \<noteq> 3 \<longrightarrow> parseLocalDate num tz s = None)
   \<and> (\<forall>a b c. split_dash s = [a, b, c] \<and> (num a = None \<or> num b = None \<or> num c = None)
        \<longrightarrow> parseLocalDate num tz s = None)
   \<and> (\<forall>a b c y m d. split_dash s = [a, b, c] \<and> num a = Some y \<and> num b = Some m \<and> num c = Some d
        \<and> 100 \<le> y \<and> y \<le> 9999 \<and> 1 \<le> m \<and> m \<le> 12 \<and> 1 \<le> d \<and> d \<le> days_in_month y m
        \<longrightarrow> parseLocalDate num tz s = Some (y, m, d))"
  by (auto simp: parseLocalDate_def Let_def new_Date_valid)

theorem parseLocalDate_results_witness:
  "parseLocalDate Number_js 60 ''2025-03'' = None
   \<and> parseLocalDate Number_js 60 ''2025-03-07-01'' = None
   \<and> parseLocalDate Number_js 60 ''2025-xx-07'' = None
   \<and> parseLocalDate Number_js 60 ''2024-02-29'' = Some (2024, 2, 29)"
proof -
  have s: "split_dash ''2025-03'' = [''2025'', ''03'']"
    "split_dash ''2025-03-07-01'' = [''2025'', ''03'', ''07'', ''01'']"
    "split_dash ''2025-xx-07'' = [''2025'', ''xx'', ''07'']"
    "split_dash ''2024-02-29'' = [''2024'', ''02'', ''29'']"
    by simp_all
  have n: "Number_js ''xx'' = None" "Number_js ''2024'' = Some 2024" "Number_js ''02'' = Some 2"
    "Number_js ''29'' = Some 29"
    by code_simp+
  have d: "(29::int) \<le> days_in_month 2024 2" by (simp add: days_in_month_def leap_year_def)
  show ?thesis
    using parseLocalDate_results [of "''2025-03''" Number_js 60]
      parseLocalDate_results [of "''2025-03-07-01''" Number_js 60]
      parseLocalDate_results [of "''2025-xx-07''" Number_js 60]
      parseLocalDate_results [of "''2024-02-29''" Number_js 60]
    by (simp add: s n d)
qed

text \<open>
  C5 as stated fails: month 13 and the 30th of February are accepted and carried into the
  following month, and strings that do not have the strict \<^verbatim>\<open>YYYY-MM-DD\<close> shape are accepted
  too (\<^verbatim>\<open>2025-3-7\<close>, even \<^verbatim>\<open>--\<close>, whose empty parts read as 0).
\<close>

theorem parseLocalDate_accepts_overflow:
  "parseLocalDate Number_js 60 ''2025-13-01'' = Some (2026, 1, 1)
   \<and> parseLocalDate Number_js 60 ''2025-02-30'' = Some (2025, 3, 2)
   \<and> parseLocalDate Number_js 60 ''2025-3-7'' = Some (2025, 3, 7)
   \<and> parseLocalDate Number_js 60 ''--'' = Some (1899, 11, 30)"
  by code_simp

subsection \<open>Reading a generated date back\<close>

lemma length_digits_of_le: "0 < k \<Longrightarrow> n < 10 ^ k \<Longrightarrow> length (digits_of n) \<le> k"
proof (induction k arbitrary: n)
  case 0
  then show ?case by simp
next
  case (Suc k)
  show ?case
  proof (cases "n < 10")
    case True
    then show ?thesis by (simp add: digits_of_small)
  next
    case False
    then have k: "0 < k" using Suc.prems by (cases k) auto
    have "n div 10 < 10 ^ k" using Suc.prems by (simp add: less_mult_imp_div_less mult.commute)
    then have "length (digits_of (n div 10)) \<le> k" using Suc.IH k by simp
    then show ?thesis using False by (subst digits_of.simps) simp
  qed
qed

lemma length_padded: "0 < k \<Longrightarrow> n < 10 ^ k \<Longrightarrow> length (padStart0 k (digits_of n)) = k"
  using length_digits_of_le [of k n] by (simp add: length_padStart0)

lemma dec_val_literals: "dec_val ''00'' = 0" "dec_val ''000'' = 0"
  by (simp_all add: dec_val_def digit_val_def)

lemma Date_parse_fields:
  assumes "length a = 4" "length b = 2" "length c = 2" "length h = 2" "length i = 2"
      and "list_all is_digit a" "list_all is_digit b" "list_all is_digit c"
          "list_all is_digit h" "list_all is_digit i"
      and "1 \<le> dec_val b" "dec_val b \<le> 12" "1 \<le> dec_val c"
          "int (dec_val c) \<le> days_in_month (int (dec_val a)) (int (dec_val b))"
          "dec_val h \<le> 23" "dec_val i \<le> 59"
  shows "Date_parse (a @ ''-'' @ b @ ''-'' @ c @ ''T'' @ h @ '':'' @ i @ '':00.000Z'')
         = Some ((int (dec_val a), int (dec_val b), int (dec_val c)),
                 (int (dec_val h) * 60 + int (dec_val i)) * 60000)"
  using assms
  by (simp add: Date_parse_def Let_def nth_append dec_val_literals is_digit_zero)

lemma dec_val_padded: "dec_val (padStart0 k (digits_of n)) = n"
  by (simp add: dec_val_padStart0 dec_val_digits_of)

lemma padded_all_digits: "list_all is_digit (padStart0 k (digits_of n))"
  by (simp add: padStart0_all_digits digits_of_all_digits)

lemma Date_parse_numbers:
  fixes y m d h i :: nat
  assumes "y \<le> 9999" "1 \<le> m" "m \<le> 12" "1 \<le> d" "int d \<le> days_in_month (int y) (int m)"
      and "h \<le> 23" "i \<le> 59"
  shows "Date_parse (padStart0 4 (digits_of y) @ ''-'' @ padStart0 2 (digits_of m) @ ''-''
            @ padStart0 2 (digits_of d) @ ''T'' @ padStart0 2 (digits_of h) @ '':''
            @ padStart0 2 (digits_of i) @ '':00.000Z'')
         = Some ((int y, int m, int d), (int h * 60 + int i) * 60000)"
proof -
  have d31: "d \<le> 31" using assms(5) days_in_month_bounds [of "int y" "int m"] by linarith
  have l: "length (padStart0 4 (digits_of y)) = 4"
    "length (padStart0 2 (digits_of m)) = 2"
    "length (padStart0 2 (digits_of d)) = 2"
    "length (padStart0 2 (digits_of h)) = 2"
    "length (padStart0 2 (digits_of i)) = 2"
    using assms d31 by (simp_all add: length_padded)
  note f = Date_parse_fields [OF l padded_all_digits padded_all_digits padded_all_digits
      padded_all_digits padded_all_digits, unfolded dec_val_padded]
  show ?thesis by (rule f) (use assms in simp_all)
qed

lemma Date_parse_iso_fields:
  assumes "0 \<le> uy" "uy \<le> 9999" "1 \<le> um" "um \<le> 12" "1 \<le> ud" "ud \<le> days_in_month uy um"
      and "0 \<le> mins" "mins < 1440"
  shows "Date_parse (iso_year uy @ ''-'' @ padStart0 2 (digits_of (nat um)) @ ''-''
            @ padStart0 2 (digits_of (nat ud)) @ ''T''
            @ padStart0 2 (digits_of (nat (mins div 60))) @ '':''
            @ padStart0 2 (digits_of (nat (mins mod 60))) @ '':00.000Z'')
         = Some ((uy, um, ud), mins * 60000)"
proof -
  have h: "0 \<le> mins div 60" "mins div 60 \<le> 23" "0 \<le> mins mod 60" "mins mod 60 \<le> 59"
    using assms(7,8) by auto
  have i: "int (nat uy) = uy" "int (nat um) = um" "int (nat ud) = ud"
    "int (nat (mins div 60)) = mins div 60" "int (nat (mins mod 60)) = mins mod 60"
    using assms h by simp_all
  have n: "nat uy \<le> 9999" "1 \<le> nat um" "nat um \<le> 12" "1 \<le> nat ud"
    "nat (mins div 60) \<le> 23" "nat (mins mod 60) \<le> 59"
    using assms h by linarith+
  have dm: "int (nat ud) \<le> days_in_month (int (nat uy)) (int (nat um))"
    unfolding i by (rule assms(6))
  have iy: "iso_year uy = padStart0 4 (digits_of (nat uy))" using assms by (simp add: iso_year_def)
  have e: "(mins div 60 * 60 + mins mod 60) * 60000 = mins * 60000" by simp
  show ?thesis
    unfolding iy using Date_parse_numbers [OF n(1-4) dm n(5,6)] unfolding i e .
qed

lemma norm_day_overflow_one:
  "norm_day y m (days_in_month y m + 1) = (case succ_month (y, m) of (y', m') \<Rightarrow> (y', m', 1))"
proof -
  have "28 \<le> days_in_month y m" using days_in_month_bounds by blast
  moreover have "28 \<le> days_in_month (if m = 12 then y + 1 else y) (if m = 12 then 1 else m + 1)"
    using days_in_month_bounds by blast
  ultimately show ?thesis
    by (subst norm_day.simps) (simp add: Let_def succ_month_def norm_day_id)
qed

lemma iso_read_back:
  assumes "100 \<le> y" "y \<le> 9999" "1 \<le> m" "m \<le> 12" "1 \<le> d" "d \<le> days_in_month y m"
      and "- 1440 < tz" "tz < 1440"
  shows "\<exists>i. Date_parse (iso_of_local_midnight tz (y, m, d)) = Some i \<and> local_date tz i = (y, m, d)"
proof (cases "0 < tz")
  case False
  then have o: "(- tz) div 1440 = 0" "(- tz) mod 1440 = - tz" using assms(7) by simp_all
  have u: "utc_of_local_midnight tz (y, m, d) = ((y, m, d), - tz)"
    using assms by (simp add: utc_of_local_midnight_def o norm_day_id)
  have p: "Date_parse (iso_of_local_midnight tz (y, m, d)) = Some ((y, m, d), (- tz) * 60000)"
    unfolding iso_of_local_midnight_def u
    using Date_parse_iso_fields [of y m d "- tz"] assms False by simp
  have "local_date tz ((y, m, d), (- tz) * 60000) = (y, m, d)"
    using assms by (simp add: local_date_def norm_day_id)
  with p show ?thesis by blast
next
  case True
  then have "tz div 1440 = 0" "tz mod 1440 = tz" using assms(8) by simp_all
  then have o: "(- tz) div 1440 = - 1" "(- tz) mod 1440 = 1440 - tz"
    using True by (simp_all add: zdiv_zminus1_eq_if zmod_zminus1_eq_if)
  obtain uy um ud where n: "norm_day y m (d - 1) = (uy, um, ud)" by (cases "norm_day y m (d - 1)")
  have ub: "99 \<le> uy \<and> uy \<le> 9999 \<and> 1 \<le> um \<and> um \<le> 12 \<and> 1 \<le> ud \<and> ud \<le> days_in_month uy um
            \<and> norm_day uy um (ud + 1) = (y, m, d)"
  proof (cases "d = 1")
    case True
    obtain py pm where p: "pred_month (y, m) = (py, pm)" by (cases "pred_month (y, m)")
    have pb: "99 \<le> py" "py \<le> 9999" "1 \<le> pm" "pm \<le> 12"
      using p assms by (auto simp: pred_month_def split: if_splits)
    have u: "uy = py" "um = pm" "ud = days_in_month py pm"
      using n True p by (auto simp: norm_day_zero)
    have "succ_month (py, pm) = (y, m)" using succ_pred_month [of m y] p assms by simp
    then have "norm_day py pm (days_in_month py pm + 1) = (y, m, 1)"
      by (simp add: norm_day_overflow_one)
    then show ?thesis using u pb True days_in_month_bounds [of py pm] by simp
  next
    case False
    then have d2: "1 \<le> d - 1" "d - 1 \<le> days_in_month y m" using assms by simp_all
    then have "norm_day y m (d - 1) = (y, m, d - 1)" by (rule norm_day_id)
    then show ?thesis using n assms d2 by (auto simp: norm_day_id)
  qed
  have u: "utc_of_local_midnight tz (y, m, d) = ((uy, um, ud), 1440 - tz)"
    using n by (simp add: utc_of_local_midnight_def o)
  have p: "Date_parse (iso_of_local_midnight tz (y, m, d)) = Some ((uy, um, ud), (1440 - tz) * 60000)"
    unfolding iso_of_local_midnight_def u
    using Date_parse_iso_fields [of uy um ud "1440 - tz"] ub True assms by simp
  have "((1440 - tz) * 60000 + tz * 60000) div 86400000 = 1" by simp
  then have "local_date tz ((uy, um, ud), (1440 - tz) * 60000) = (y, m, d)"
    using ub by (simp add: local_date_def)
  with p show ?thesis by blast
qed

text \<open>
  C2, as the code has it. For a valid month key with a year from 0100 on, templates whose day
  of the month is at least 1, and a zone less than a day from UTC: for every template that
  the existence check does not skip, the run emits exactly one entry, in the order of the
  templates, equal to the template except for the id \<^verbatim>\<open><template.id>_<monthKey>\<close> and the
  date; the date is the ISO (UTC) timestamp of the local midnight of day
  \<open>min (recurringDayOfMonth) (days in the month)\<close> of the target month, a day of that month, and
  read back in local time it is that day. For February a day of 31 gives the 28th, the 29th
  in a leap year.
\<close>

theorem recurring_instances:
  assumes "valid_month_key k" and "100 \<le> key_year k"
      and "\<forall>t\<in>set E. is_template t \<and> \<not> alreadyExists (expensesForMonth E k) t
             \<longrightarrow> 1 \<le> the (recurringDayOfMonth t)"
      and "- 1440 < tz" and "tz < 1440"
  shows "generateRecurringForMonth tz E k =
           Inr (map (\<lambda>t. instance_of t k (iso_of_local_midnight tz
                      (key_year k, key_month k,
                       min (the (recurringDayOfMonth t)) (days_in_month (key_year k) (key_month k)))))
                 (filter (\<lambda>t. is_template t \<and> \<not> alreadyExists (expensesForMonth E k) t) E))
         \<and> (\<forall>t\<in>set E. is_template t \<and> \<not> alreadyExists (expensesForMonth E k) t \<longrightarrow>
               1 \<le> min (the (recurringDayOfMonth t)) (days_in_month (key_year k) (key_month k))
               \<and> (\<exists>i. Date_parse (iso_of_local_midnight tz
                         (key_year k, key_month k,
                          min (the (recurringDayOfMonth t)) (days_in_month (key_year k) (key_month k))))
                       = Some i
                     \<and> local_date tz i =
                         (key_year k, key_month k,
                          min (the (recurringDayOfMonth t)) (days_in_month (key_year k) (key_month k)))))
         \<and> (key_month k = 2 \<longrightarrow>
               min 31 (days_in_month (key_year k) (key_month k))
                 = (if leap_year (key_year k) then 29 else 28))"
proof -
  have y: "key_year k \<le> 9999" and m: "1 \<le> key_month k" "key_month k \<le> 12"
    using assms(1) key_year_bound [of k] by (simp_all add: valid_month_key_def)
  have g: "generateRecurringForMonth tz E k =
           Inr (map (\<lambda>t. instance_of t k (iso_of_local_midnight tz
                      (key_year k, key_month k,
                       min (the (recurringDayOfMonth t)) (days_in_month (key_year k) (key_month k)))))
                 (filter (\<lambda>t. is_template t \<and> \<not> alreadyExists (expensesForMonth E k) t) E))"
    using assms(1-3) by (rule generate_valid)
  have r: "1 \<le> min (the (recurringDayOfMonth t)) (days_in_month (key_year k) (key_month k))
           \<and> (\<exists>i. Date_parse (iso_of_local_midnight tz
                         (key_year k, key_month k,
                          min (the (recurringDayOfMonth t)) (days_in_month (key_year k) (key_month k))))
                       = Some i
                     \<and> local_date tz i =
                         (key_year k, key_month k,
                          min (the (recurringDayOfMonth t)) (days_in_month (key_year k) (key_month k))))"
    if t: "t \<in> set E" "is_template t" "\<not> alreadyExists (expensesForMonth E k) t" for t
  proof -
    have d: "1 \<le> min (the (recurringDayOfMonth t)) (days_in_month (key_year k) (key_month k))"
      using assms(3) t days_in_month_bounds [of "key_year k" "key_month k"] by simp
    have "min (the (recurringDayOfMonth t)) (days_in_month (key_year k) (key_month k))
            \<le> days_in_month (key_year k) (key_month k)" by simp
    with d show ?thesis
      using iso_read_back [OF assms(2) y m d _ assms(4,5)] by blast
  qed
  have f: "key_month k = 2 \<longrightarrow>
               min 31 (days_in_month (key_year k) (key_month k))
                 = (if leap_year (key_year k) then 29 else 28)"
    by (simp add: days_in_month_def)
  show ?thesis using g r f by blast
qed

theorem recurring_instances_witness:
  "generateRecurringForMonth 60 [rentT, gymT] ''2024-02'' =
     Inr [instance_of rentT ''2024-02'' ''2024-01-31T23:00:00.000Z'',
          instance_of gymT ''2024-02'' ''2024-02-28T23:00:00.000Z'']
   \<and> Date_parse ''2024-02-28T23:00:00.000Z'' = Some ((2024, 2, 28), 82800000)
   \<and> local_date 60 ((2024, 2, 28), 82800000) = (2024, 2, 29)
   \<and> generateRecurringForMonth 60 [gymT] ''2025-02'' =
     Inr [instance_of gymT ''2025-02'' ''2025-02-27T23:00:00.000Z'']
   \<and> Date_parse ''2025-02-27T23:00:00.000Z'' = Some ((2025, 2, 27), 82800000)
   \<and> local_date 60 ((2025, 2, 27), 82800000) = (2025, 2, 28)"
proof -
  have v: "valid_month_key ''2024-02''" "100 \<le> key_year ''2024-02''"
    "valid_month_key ''2025-02''" "100 \<le> key_year ''2025-02''"
    by code_simp+
  have d: "\<forall>t\<in>set [rentT, gymT]. is_template t
             \<and> \<not> alreadyExists (expensesForMonth [rentT, gymT] ''2024-02'') t
             \<longrightarrow> 1 \<le> the (recurringDayOfMonth t)"
    "\<forall>t\<in>set [gymT]. is_template t
             \<and> \<not> alreadyExists (expensesForMonth [gymT] ''2025-02'') t
             \<longrightarrow> 1 \<le> the (recurringDayOfMonth t)"
    by (simp_all add: rentT_def gymT_def)
  have z: "- 1440 < (60::int)" "(60::int) < 1440" by simp_all
  have e: "generateRecurringForMonth 60 [rentT, gymT] ''2024-02'' =
     Inr [instance_of rentT ''2024-02'' ''2024-01-31T23:00:00.000Z'',
          instance_of gymT ''2024-02'' ''2024-02-28T23:00:00.000Z'']"
    "Date_parse ''2024-02-28T23:00:00.000Z'' = Some ((2024, 2, 28), 82800000)"
    "local_date 60 ((2024, 2, 28), 82800000) = (2024, 2, 29)"
    "generateRecurringForMonth 60 [gymT] ''2025-02'' =
     Inr [instance_of gymT ''2025-02'' ''2025-02-27T23:00:00.000Z'']"
    "Date_parse ''2025-02-27T23:00:00.000Z'' = Some ((2025, 2, 27), 82800000)"
    "local_date 60 ((2025, 2, 27), 82800000) = (2025, 2, 28)"
    by code_simp+
  show ?thesis
    using recurring_instances [OF v(1,2) d(1) z] recurring_instances [OF v(3,4) d(2) z] e
    by blast
qed

text \<open>
  C2 as stated fails for a present day of the month below 1 and for a month key with a year
  below 100: day 0 of March 2025 is the 28th of February, and the key \<^verbatim>\<open>0050-02\<close> is read as
  February 1950.
\<close>

theorem recurring_instance_outside_month:
  "is_template zeroDay \<and> \<not> alreadyExists (expensesForMonth [zeroDay] ''2025-03'') zeroDay
   \<and> generateRecurringForMonth 0 [zeroDay] ''2025-03'' =
       Inr [instance_of zeroDay ''2025-03'' ''2025-02-28T00:00:00.000Z'']
   \<and> Date_parse ''2025-02-28T00:00:00.000Z'' = Some ((2025, 2, 28), 0)
   \<and> local_date 0 ((2025, 2, 28), 0) = (2025, 2, 28)
   \<and> valid_month_key ''0050-02''
   \<and> generateRecurringForMonth 0 [rentT] ''0050-02'' =
       Inr [instance_of rentT ''0050-02'' ''1950-02-01T00:00:00.000Z'']"
  by code_simp

end
